theory Spec2Isabelle
  imports Complex_Main "HOL-Library.Word" "HOL-Library.Multiset" "HOL-Library.AList"
    "HOL-Library.Signed_Division"
begin

section \<open>Colours\<close>

text \<open>
  \<^verbatim>\<open>type RGB [3]uint8\<close> with the accessors \<^verbatim>\<open>R()\<close>, \<^verbatim>\<open>G()\<close>, \<^verbatim>\<open>B()\<close>, and
  \<^verbatim>\<open>color.RGBA\<close> of the Go standard library (four \<^verbatim>\<open>uint8\<close> fields).
\<close>

datatype RGB = RGB (R: "8 word") (G: "8 word") (B: "8 word")

datatype RGBA = RGBA (red: "8 word") (green: "8 word") (blue: "8 word") (alpha: "8 word")

definition RGB_RGBA :: "RGB \<Rightarrow> RGBA" where
  "RGB_RGBA c = RGBA (R c) (G c) (B c) 255"

text \<open>\<^verbatim>\<open>Hex\<close>: \<^verbatim>\<open>fmt.Sprintf("#%02X%02X%02X", c[0], c[1], c[2])\<close>.\<close>

definition hexDigit :: "nat \<Rightarrow> char" where
  "hexDigit n = ''0123456789ABCDEF'' ! n"

definition hex2 :: "8 word \<Rightarrow> string" where
  "hex2 w = [hexDigit (unat w div 16), hexDigit (unat w mod 16)]"

definition Hex :: "RGB \<Rightarrow> string" where
  "Hex c = CHR ''#'' # hex2 (R c) @ hex2 (G c) @ hex2 (B c)"

section \<open>Floating point\<close>

text \<open>
  A \<^verbatim>\<open>float64\<close> is a finite number, an infinity or NaN. Finite values are modelled by
  real numbers and the arithmetic on them is exact. The sums that the program forms are
  sums of integers, which \<^verbatim>\<open>float64\<close> holds exactly below \<open>2 ^ 53\<close>; the rounding of a
  quotient or of a square root to the nearest \<^verbatim>\<open>float64\<close> is not modelled. A division
  is the one operation of the program that leaves the finite range; \<open>fdiv\<close> divides two
  finite values as IEEE 754 does (signed zeros apart).
\<close>

datatype float64 = Num real | PosInf | NegInf | NaN

definition fdiv :: "real \<Rightarrow> real \<Rightarrow> float64" where
  "fdiv a b =
     (if b \<noteq> 0 then Num (a / b)
      else if a > 0 then PosInf
      else if a < 0 then NegInf
      else NaN)"

fun fsqrt :: "float64 \<Rightarrow> float64" where
  "fsqrt (Num x) = (if x < 0 then NaN else Num (sqrt x))"
| "fsqrt PosInf = PosInf"
| "fsqrt NegInf = NaN"
| "fsqrt NaN = NaN"

fun ffloor :: "float64 \<Rightarrow> float64" where
  "ffloor (Num x) = Num (of_int \<lfloor>x\<rfloor>)"
| "ffloor PosInf = PosInf"
| "ffloor NegInf = NegInf"
| "ffloor NaN = NaN"

fun flt :: "float64 \<Rightarrow> float64 \<Rightarrow> bool" where
  "flt (Num x) (Num y) = (x < y)"
| "flt (Num x) PosInf = True"
| "flt NegInf (Num y) = True"
| "flt NegInf PosInf = True"
| "flt _ _ = False"

section \<open>What the Go runtime leaves open\<close>

record colorCount =
  Key :: string
  Value :: int
  Color :: RGB

text \<open>
  The program calls \<^verbatim>\<open>sort.Sort\<close> (not stable, the order of equal elements is not
  specified), iterates over a map (the order is not specified) and converts
  \<^verbatim>\<open>float64\<close> to \<^verbatim>\<open>uint8\<close> (the result for a value that \<^verbatim>\<open>uint8\<close> cannot represent is
  implementation-dependent). These are parameters of the model.
\<close>

record runtime =
  sortRGB :: "RGB list \<Rightarrow> RGB list"
  sortCounts :: "colorCount list \<Rightarrow> colorCount list"
  sortCountsRev :: "colorCount list \<Rightarrow> colorCount list"
  rangeMap :: "(string \<times> colorCount) list \<Rightarrow> colorCount list"
  convUndef :: "float64 \<Rightarrow> 8 word"

section \<open>Hue\<close>

record HSL =
  H :: float64
  S :: float64
  L :: float64

text \<open>
  \<^verbatim>\<open>ToHSL\<close> works on the channel values as they are, from 0 to 255. The channels, their
  maximum, minimum, sum and difference are finite, so is every quotient by \<open>delta\<close>, 2 or
  6; the divisor of the saturation can be zero.
\<close>

definition ToHSL :: "RGB \<Rightarrow> HSL" where
  "ToHSL c =
     (let r = real (unat (R c));
          g = real (unat (G c));
          b = real (unat (B c));
          mx = max (max r g) b;
          mn = min (min r g) b;
          l = (mx + mn) / 2;
          delta = mx - mn
      in if delta = 0 then \<lparr>H = Num 0, S = Num 0, L = Num l\<rparr>
         else
           (let s = (if l < 1 / 2 then fdiv delta (mx + mn) else fdiv delta (2 - mx - mn));
                r2 = (((mx - r) / 6) + (delta / 2)) / delta;
                g2 = (((mx - g) / 6) + (delta / 2)) / delta;
                b2 = (((mx - b) / 6) + (delta / 2)) / delta;
                h = (if r = mx then b2 - g2
                     else if g = mx then (1 / 3) + r2 - b2
                     else if b = mx then (2 / 3) + g2 - r2
                     else 0);
                h' = (if h < 0 then h + 1 else if h > 1 then h - 1 else h)
            in \<lparr>H = Num h', S = s, L = Num l\<rparr>))"

text \<open>\<^verbatim>\<open>RGBList.Less\<close>, on the two elements it compares.\<close>

definition RGB_Less :: "RGB \<Rightarrow> RGB \<Rightarrow> bool" where
  "RGB_Less x y = flt (H (ToHSL x)) (H (ToHSL y))"

text \<open>\<^verbatim>\<open>colorCountList.Less\<close>, and \<^verbatim>\<open>Less\<close> of \<^verbatim>\<open>sort.Reverse\<close> of it.\<close>

definition colorCount_Less :: "colorCount \<Rightarrow> colorCount \<Rightarrow> bool" where
  "colorCount_Less x y = (Value x < Value y)"

definition reverse_Less :: "colorCount \<Rightarrow> colorCount \<Rightarrow> bool" where
  "reverse_Less x y = colorCount_Less y x"

text \<open>
  What \<^verbatim>\<open>sort.Sort\<close> promises: the elements are rearranged, and afterwards no element
  is \<^verbatim>\<open>Less\<close> than one before it. Iterating over a map visits every entry once.
\<close>

definition sorts :: "('a \<Rightarrow> 'a \<Rightarrow> bool) \<Rightarrow> ('a list \<Rightarrow> 'a list) \<Rightarrow> bool" where
  "sorts lt f = (\<forall>xs. mset (f xs) = mset xs \<and> sorted_wrt (\<lambda>x y. \<not> lt y x) (f xs))"

definition runtime_ok :: "runtime \<Rightarrow> bool" where
  "runtime_ok E =
     (sorts RGB_Less (sortRGB E) \<and>
      sorts colorCount_Less (sortCounts E) \<and>
      sorts reverse_Less (sortCountsRev E) \<and>
      (\<forall>m. mset (rangeMap E m) = mset (map snd m)))"

text \<open>One runtime: stable insertion sorts, and a map iterated in the order of insertion.\<close>

definition hueKey :: "RGB \<Rightarrow> real" where
  "hueKey c = (case H (ToHSL c) of Num h \<Rightarrow> h | _ \<Rightarrow> 0)"

definition refRuntime :: runtime where
  "refRuntime =
     \<lparr>sortRGB = sort_key hueKey,
      sortCounts = sort_key Value,
      sortCountsRev = sort_key (\<lambda>c. - Value c),
      rangeMap = map snd,
      convUndef = (\<lambda>_. 0)\<rparr>"

text \<open>Conversion \<^verbatim>\<open>uint8(f)\<close>: the fraction is discarded.\<close>

definition trunc_int :: "real \<Rightarrow> int" where
  "trunc_int x = (if 0 \<le> x then \<lfloor>x\<rfloor> else \<lceil>x\<rceil>)"

definition toUint8 :: "runtime \<Rightarrow> float64 \<Rightarrow> 8 word" where
  "toUint8 E f =
     (case f of
        Num x \<Rightarrow> (if 0 \<le> trunc_int x \<and> trunc_int x \<le> 255 then word_of_int (trunc_int x)
                  else convUndef E f)
      | _ \<Rightarrow> convUndef E f)"

section \<open>Slices in a store\<close>

text \<open>
  An \<^verbatim>\<open>RGBList\<close> is a slice: a reference to an array that callee and caller share.
  The store maps the address of each array to its contents; \<open>brk\<close> is the first address
  not yet allocated.
\<close>

type_synonym addr = nat

record store =
  arrays :: "addr \<Rightarrow> RGB list"
  brk :: addr

definition make_RGBList :: "nat \<Rightarrow> store \<Rightarrow> addr \<times> store" where
  "make_RGBList n s =
     (brk s, s\<lparr>arrays := (arrays s)(brk s := replicate n (RGB 0 0 0)), brk := Suc (brk s)\<rparr>)"

definition copy_RGBList :: "addr \<Rightarrow> addr \<Rightarrow> store \<Rightarrow> store" where
  "copy_RGBList dst src s =
     (let n = min (length (arrays s dst)) (length (arrays s src))
      in s\<lparr>arrays := (arrays s)(dst := take n (arrays s src) @ drop n (arrays s dst))\<rparr>)"

definition sort_RGBList :: "runtime \<Rightarrow> addr \<Rightarrow> store \<Rightarrow> store" where
  "sort_RGBList E a s = s\<lparr>arrays := (arrays s)(a := sortRGB E (arrays s a))\<rparr>"

section \<open>Configuration\<close>

text \<open>The package-level variables set from the command line.\<close>

record config =
  width :: int
  lineHeight :: int
  avgSqr :: bool
  genMode :: int

section \<open>Average\<close>

definition getAverage :: "runtime \<Rightarrow> config \<Rightarrow> store \<Rightarrow> addr \<Rightarrow> RGB \<times> store" where
  "getAverage E cfg s pixels =
     (let total = length (arrays s pixels) in
      if avgSqr cfg then
        (let (r, g, b) =
               fold (\<lambda>p (r, g, b).
                       (r + (real (unat (R p)))\<^sup>2,
                        g + (real (unat (G p)))\<^sup>2,
                        b + (real (unat (B p)))\<^sup>2))
                 (arrays s pixels) (0, 0, 0)
         in (RGB (toUint8 E (fsqrt (fdiv r (real total))))
                 (toUint8 E (fsqrt (fdiv g (real total))))
                 (toUint8 E (fsqrt (fdiv b (real total)))), s))
      else
        (let (r, g, b) =
               fold (\<lambda>p (r, g, b).
                       (r + real (unat (R p)),
                        g + real (unat (G p)),
                        b + real (unat (B p))))
                 (arrays s pixels) (0, 0, 0)
         in (RGB (toUint8 E (ffloor (fdiv r (real total))))
                 (toUint8 E (ffloor (fdiv g (real total))))
                 (toUint8 E (ffloor (fdiv b (real total)))), s)))"

section \<open>Median\<close>

text \<open>A run-time panic ends the program; the model returns it in place of the result.\<close>

datatype panic = IndexOutOfRange | IntegerDivideByZero | MakesliceLenOutOfRange

definition getMedian :: "runtime \<Rightarrow> store \<Rightarrow> addr \<Rightarrow> (panic + RGB) \<times> store" where
  "getMedian E s pixels =
     (let (list, s1) = make_RGBList (length (arrays s pixels)) s;
          s2 = copy_RGBList list pixels s1;
          s3 = sort_RGBList E list s2;
          i = length (arrays s3 list) div 2
      in if i < length (arrays s3 list) then (Inr (arrays s3 list ! i), s3)
         else (Inl IndexOutOfRange, s3))"

section \<open>Mode\<close>

text \<open>
  The map \<^verbatim>\<open>m\<close> from hex strings to counts is an association list with one entry for
  each key; reading a key that is absent gives the zero \<^verbatim>\<open>colorCount\<close>.
\<close>

definition lookupCount :: "(string \<times> colorCount) list \<Rightarrow> string \<Rightarrow> colorCount" where
  "lookupCount m k =
     (case map_of m k of Some cc \<Rightarrow> cc | None \<Rightarrow> \<lparr>Key = [], Value = 0, Color = RGB 0 0 0\<rparr>)"

definition countPixel :: "RGB \<Rightarrow> (string \<times> colorCount) list \<Rightarrow> (string \<times> colorCount) list" where
  "countPixel p m =
     (let k = Hex p;
          m1 = (if map_of m k = None then AList.update k \<lparr>Key = k, Value = 0, Color = p\<rparr> m
                else m);
          cc = lookupCount m1 k;
          cc' = cc\<lparr>Value := Value cc + 1\<rparr>
      in AList.update k cc' m1)"

text \<open>
  The invariant of the counting loop: after the pixels \<open>seen\<close>, the map has one entry
  for each colour seen, under the key of that colour.
\<close>

definition countInv :: "(string \<times> colorCount) list \<Rightarrow> RGB list \<Rightarrow> bool" where
  "countInv m seen =
     (distinct (map fst m) \<and>
      (\<forall>e\<in>set m. fst e = Hex (Color (snd e))) \<and>
      (Color \<circ> snd) ` set m = set seen)"

text \<open>\<^verbatim>\<open>for i := 0; i < len(counts) && i < genMode; i++ { result[i] = counts[i].Color }\<close>\<close>

function fillResult :: "colorCount list \<Rightarrow> int \<Rightarrow> int \<Rightarrow> RGB list \<Rightarrow> RGB list" where
  "fillResult counts n i result =
     (if i < int (length counts) \<and> i < n
      then fillResult counts n (i + 1) (result[nat i := Color (counts ! nat i)])
      else result)"
  by pat_completeness auto
termination
  by (relation "measure (\<lambda>(counts, n, i, result). nat (n - i))") auto

declare fillResult.simps [simp del]

definition getMode :: "runtime \<Rightarrow> config \<Rightarrow> store \<Rightarrow> addr \<Rightarrow> (panic + addr) \<times> store" where
  "getMode E cfg s pixels =
     (let m = fold countPixel (arrays s pixels) [];
          counts = rangeMap E m;
          counts = sortCounts E counts;
          counts = sortCountsRev E counts
      in if genMode cfg < 0 then (Inl MakesliceLenOutOfRange, s)
         else
           (let (result, s1) = make_RGBList (nat (genMode cfg)) s;
                s2 = s1\<lparr>arrays := (arrays s1)
                       (result := fillResult counts (genMode cfg) 0 (arrays s1 result))\<rparr>;
                s3 = sort_RGBList E result s2
            in (Inr result, s3)))"

section \<open>Rendering\<close>

text \<open>
  \<^verbatim>\<open>image.Rect\<close> orders its corners; \<^verbatim>\<open>image.NewRGBA\<close> gives a raster of transparent
  black; \<^verbatim>\<open>Set\<close> writes one pixel and ignores a point outside the bounds. The integers
  are mathematical ones: a raster that Go can allocate has dimensions far below the
  range of \<^verbatim>\<open>int\<close>. The renderers read their slices only, so they take them as lists.
  Writing the raster to a file is outside the model.
\<close>

record Rectangle =
  MinX :: int
  MinY :: int
  MaxX :: int
  MaxY :: int

definition Rect :: "int \<Rightarrow> int \<Rightarrow> int \<Rightarrow> int \<Rightarrow> Rectangle" where
  "Rect x0 y0 x1 y1 = \<lparr>MinX = min x0 x1, MinY = min y0 y1, MaxX = max x0 x1, MaxY = max y0 y1\<rparr>"

record Image =
  Pix :: "int \<times> int \<Rightarrow> RGBA"
  Bounds :: Rectangle

definition NewRGBA :: "Rectangle \<Rightarrow> Image" where
  "NewRGBA r = \<lparr>Pix = (\<lambda>_. RGBA 0 0 0 0), Bounds = r\<rparr>"

definition inBounds :: "Image \<Rightarrow> int \<Rightarrow> int \<Rightarrow> bool" where
  "inBounds img x y =
     (MinX (Bounds img) \<le> x \<and> x < MaxX (Bounds img) \<and>
      MinY (Bounds img) \<le> y \<and> y < MaxY (Bounds img))"

definition RGBA_Set :: "Image \<Rightarrow> int \<Rightarrow> int \<Rightarrow> RGBA \<Rightarrow> Image" where
  "RGBA_Set img x y c = (if inBounds img x y then img\<lparr>Pix := (Pix img)((x, y) := c)\<rparr> else img)"

text \<open>\<^verbatim>\<open>for x := x0; x < x1; x++ { img.Set(x, y, c) }\<close>\<close>

definition setRow :: "int \<Rightarrow> int \<Rightarrow> int \<Rightarrow> RGBA \<Rightarrow> Image \<Rightarrow> Image" where
  "setRow x0 x1 y c img = fold (\<lambda>x im. RGBA_Set im x y c) [x0..x1 - 1] img"

text \<open>The body of \<^verbatim>\<open>for y, row := range frames\<close> in \<^verbatim>\<open>genLineImage\<close>.\<close>

definition lineStep :: "config \<Rightarrow> nat \<times> RGB \<Rightarrow> Image \<Rightarrow> Image" where
  "lineStep cfg =
     (\<lambda>(y, row) im.
        let c = RGB_RGBA row
        in fold (\<lambda>i. setRow 0 (width cfg) ((int y * lineHeight cfg) + i) c)
             [0..lineHeight cfg - 1] im)"

definition genLineImage :: "config \<Rightarrow> RGB list \<Rightarrow> Image" where
  "genLineImage cfg frames =
     (let img = NewRGBA (Rect 0 0 (width cfg) (int (length frames) * lineHeight cfg))
      in fold (lineStep cfg) (enumerate 0 frames) img)"

fun colRows :: "config \<Rightarrow> nat \<Rightarrow> RGB list list \<Rightarrow> Image \<Rightarrow> panic + Image" where
  "colRows cfg y [] img = Inr img"
| "colRows cfg y (row # rest) img =
     (if length row = 0 then Inl IntegerDivideByZero
      else
        (let colWidth = width cfg sdiv int (length row)
         in colRows cfg (Suc y) rest
              (fold (\<lambda>i. fold (\<lambda>(j, col).
                              let c = RGB_RGBA col
                              in setRow (int j * colWidth) (int j * colWidth + colWidth)
                                   ((int y * lineHeight cfg) + i) c)
                          (enumerate 0 row))
                 [0..lineHeight cfg - 1] img)))"

definition genLineColImage :: "config \<Rightarrow> RGB list list \<Rightarrow> panic + Image" where
  "genLineColImage cfg frames =
     colRows cfg 0 frames
       (NewRGBA (Rect 0 0 (width cfg) (int (length frames) * lineHeight cfg)))"

section \<open>Inputs of the examples\<close>

definition grid2x2 :: store where
  "grid2x2 =
     \<lparr>arrays = (\<lambda>_. [])(0 := [RGB 255 255 255, RGB 255 255 255, RGB 0 0 0, RGB 0 0 0]),
      brk = 1\<rparr>"

definition cfgLinear :: config where
  "cfgLinear = \<lparr>width = 720, lineHeight = 1, avgSqr = False, genMode = 0\<rparr>"

definition gridOneTwo :: store where
  "gridOneTwo = \<lparr>arrays = (\<lambda>_. [])(0 := [RGB 1 1 1, RGB 2 2 2]), brk = 1\<rparr>"

definition cfgSquare :: config where
  "cfgSquare = \<lparr>width = 720, lineHeight = 1, avgSqr = True, genMode = 0\<rparr>"

definition gridUniform :: store where
  "gridUniform = \<lparr>arrays = (\<lambda>_. [])(0 := [RGB 10 200 77, RGB 10 200 77, RGB 10 200 77]), brk = 1\<rparr>"

definition gridBGRG :: store where
  "gridBGRG = \<lparr>arrays = (\<lambda>_. [])(0 := [RGB 0 0 255, RGB 0 255 0, RGB 255 0 0, RGB 0 255 0]), brk = 1\<rparr>"

definition gridWhite :: store where
  "gridWhite = \<lparr>arrays = (\<lambda>_. [])(0 := [RGB 255 255 255, RGB 255 255 255]), brk = 1\<rparr>"

definition cfgMode3 :: config where
  "cfgMode3 = \<lparr>width = 720, lineHeight = 1, avgSqr = False, genMode = 3\<rparr>"

definition gridEmpty :: store where
  "gridEmpty = \<lparr>arrays = (\<lambda>_. []), brk = 1\<rparr>"

definition cfgSmall :: config where
  "cfgSmall = \<lparr>width = 3, lineHeight = 2, avgSqr = False, genMode = 0\<rparr>"

section \<open>Properties\<close>

subsection \<open>What a sort keeps\<close>

lemma sorts_mset: "sorts lt f \<Longrightarrow> mset (f xs) = mset xs"
  by (simp add: sorts_def)

lemma sorts_sorted: "sorts lt f \<Longrightarrow> sorted_wrt (\<lambda>x y. \<not> lt y x) (f xs)"
  by (simp add: sorts_def)

lemma sorts_length: "sorts lt f \<Longrightarrow> length (f xs) = length xs"
  using sorts_mset[of lt f xs] by (metis size_mset)

lemma sorts_set: "sorts lt f \<Longrightarrow> set (f xs) = set xs"
  using sorts_mset[of lt f xs] by (metis set_mset_mset)

lemma sorts_Nil: "sorts lt f \<Longrightarrow> f [] = []"
  using sorts_mset[of lt f "[]"] by simp

lemma sorts_replicate:
  assumes "sorts lt f"
  shows "f (replicate n x) = replicate n x"
proof -
  have "set (f (replicate n x)) \<subseteq> {x}"
    unfolding sorts_set[OF assms] by auto
  moreover have "length (f (replicate n x)) = n"
    unfolding sorts_length[OF assms] by simp
  ultimately show ?thesis by (metis replicate_eqI singletonD subsetD)
qed

subsection \<open>The reference runtime keeps the promises\<close>

lemma ToHSL_H_Num: "\<exists>h. H (ToHSL c) = Num h"
  by (simp add: ToHSL_def Let_def)

lemma RGB_Less_hueKey: "RGB_Less x y \<longleftrightarrow> hueKey x < hueKey y"
proof -
  obtain a b where "H (ToHSL x) = Num a" "H (ToHSL y) = Num b"
    using ToHSL_H_Num by blast
  then show ?thesis by (simp add: RGB_Less_def hueKey_def)
qed

lemma sorts_sort_key:
  fixes k :: "'a \<Rightarrow> 'b::linorder"
  assumes "\<And>x y. lt x y \<longleftrightarrow> k x < k y"
  shows "sorts lt (sort_key k)"
proof -
  have "sorted_wrt (\<lambda>x y. \<not> lt y x) (sort_key k xs)" for xs
    using sorted_sort_key[of k xs]
    by (simp add: sorted_map assms not_less)
  then show ?thesis by (simp add: sorts_def)
qed

lemma refRuntime_ok: "runtime_ok refRuntime"
  unfolding runtime_ok_def refRuntime_def
  by (simp add: sorts_sort_key RGB_Less_hueKey colorCount_Less_def reverse_Less_def)

subsection \<open>Average, linear mode\<close>

lemma fold3: "fold (\<lambda>p (r, g, b). (r + f1 p, g + f2 p, b + f3 p)) xs (x, y, z)
   = (x + sum_list (map f1 xs), y + sum_list (map f2 xs), z + (sum_list (map f3 xs) :: real))"
  by (induction xs arbitrary: x y z) (auto simp: algebra_simps)

lemma toUint8_floor_div:
  assumes "0 < n" "a \<le> 255 * n"
  shows "toUint8 E (ffloor (fdiv (real a) (real n))) = word_of_int (int (a div n))"
    and "unat (toUint8 E (ffloor (fdiv (real a) (real n)))) = a div n"
proof -
  have d: "a div n \<le> 255" using assms
    by (metis div_le_mono div_mult_self_is_m mult.commute)
  have f: "\<lfloor>real a / real n\<rfloor> = int (a div n)"
    by (simp add: floor_divide_of_nat_eq)
  show 1: "toUint8 E (ffloor (fdiv (real a) (real n))) = word_of_int (int (a div n))"
    using assms d by (simp add: toUint8_def fdiv_def f trunc_int_def)
  show "unat (toUint8 E (ffloor (fdiv (real a) (real n)))) = a div n"
    using d unfolding 1 by (simp add: unat_of_nat take_bit_nat_eq_self)
qed

lemma sum_unat_le: "sum_list (map (\<lambda>p. unat (f p :: 8 word)) xs) \<le> 255 * length xs"
proof (induction xs)
  case (Cons x xs)
  have "unat (f x) \<le> 255" using unsigned_less[of "f x", where ?'a = nat] by simp
  then show ?case using Cons by simp
qed simp

lemma real_sum_list: "real (\<Sum>p\<leftarrow>xs. f p) = (\<Sum>p\<leftarrow>xs. real (f p))"
  by (induction xs) simp_all

text \<open>
  C6. In linear mode, on a grid with at least one pixel, each channel of \<^verbatim>\<open>getAverage\<close>
  is the sum of that channel over the pixels divided by the number of pixels, rounded
  down; a second run on the store that the first run leaves gives the same result; on
  the grid white, white, black, black the result is (127, 127, 127).
\<close>

theorem getAverage_linear_floor:
  assumes "arrays s pixels \<noteq> []" and "\<not> avgSqr cfg"
  shows "(let n = length (arrays s pixels); c = fst (getAverage E cfg s pixels) in
            unat (R c) = (\<Sum>p\<leftarrow>arrays s pixels. unat (R p)) div n \<and>
            unat (G c) = (\<Sum>p\<leftarrow>arrays s pixels. unat (G p)) div n \<and>
            unat (B c) = (\<Sum>p\<leftarrow>arrays s pixels. unat (B p)) div n) \<and>
         getAverage E cfg (snd (getAverage E cfg s pixels)) pixels = getAverage E cfg s pixels \<and>
         (arrays s pixels = [RGB 255 255 255, RGB 255 255 255, RGB 0 0 0, RGB 0 0 0] \<longrightarrow>
            fst (getAverage E cfg s pixels) = RGB 127 127 127)"
proof -
  let ?xs = "arrays s pixels"
  have n: "0 < length ?xs" using assms(1) by simp
  have sums: "real (\<Sum>p\<leftarrow>?xs. unat (f p)) = (\<Sum>p\<leftarrow>?xs. real (unat (f p)))" for f :: "RGB \<Rightarrow> 8 word"
    by (rule real_sum_list)
  have avg: "getAverage E cfg s pixels =
    (RGB (toUint8 E (ffloor (fdiv (real (\<Sum>p\<leftarrow>?xs. unat (R p))) (real (length ?xs)))))
         (toUint8 E (ffloor (fdiv (real (\<Sum>p\<leftarrow>?xs. unat (G p))) (real (length ?xs)))))
         (toUint8 E (ffloor (fdiv (real (\<Sum>p\<leftarrow>?xs. unat (B p))) (real (length ?xs))))), s)"
    using assms(2) by (simp add: getAverage_def Let_def fold3 sums)
  have 1: "unat (R (fst (getAverage E cfg s pixels))) = (\<Sum>p\<leftarrow>?xs. unat (R p)) div length ?xs"
    unfolding avg using toUint8_floor_div(2)[OF n sum_unat_le[of R ?xs]] by simp
  have 2: "unat (G (fst (getAverage E cfg s pixels))) = (\<Sum>p\<leftarrow>?xs. unat (G p)) div length ?xs"
    unfolding avg using toUint8_floor_div(2)[OF n sum_unat_le[of G ?xs]] by simp
  have 3: "unat (B (fst (getAverage E cfg s pixels))) = (\<Sum>p\<leftarrow>?xs. unat (B p)) div length ?xs"
    unfolding avg using toUint8_floor_div(2)[OF n sum_unat_le[of B ?xs]] by simp
  have 4: "getAverage E cfg (snd (getAverage E cfg s pixels)) pixels = getAverage E cfg s pixels"
    unfolding avg by (simp add: avg)
  have 5: "fst (getAverage E cfg s pixels) = RGB 127 127 127"
    if "?xs = [RGB 255 255 255, RGB 255 255 255, RGB 0 0 0, RGB 0 0 0]"
  proof -
    have "\<lfloor>510 / 4 :: real\<rfloor> = 127" by (simp add: floor_eq_iff)
    then show ?thesis unfolding avg that
      by (simp add: fdiv_def toUint8_def trunc_int_def)
  qed
  show ?thesis using 1 2 3 4 5 by (simp add: Let_def)
qed

theorem getAverage_linear_floor_witness:
  "arrays grid2x2 0 \<noteq> [] \<and> \<not> avgSqr cfgLinear \<and>
   fst (getAverage refRuntime cfgLinear grid2x2 0) = RGB 127 127 127 \<and>
   unat (R (fst (getAverage refRuntime cfgLinear grid2x2 0))) = (255 + 255 + 0 + 0) div 4"
  using getAverage_linear_floor[of grid2x2 0 cfgLinear refRuntime]
  by (simp add: grid2x2_def cfgLinear_def Let_def)

subsection \<open>Average, quadratic mode\<close>

lemma sum_sq_unat_le: "sum_list (map (\<lambda>p. (unat (f p :: 8 word))\<^sup>2) xs) \<le> 65025 * length xs"
proof (induction xs)
  case (Cons x xs)
  have "unat (f x) \<le> 255" using unsigned_less[of "f x", where ?'a = nat] by simp
  then have "(unat (f x))\<^sup>2 \<le> 255\<^sup>2" by (rule power_mono) simp
  then show ?case using Cons by simp
qed simp

lemma toUint8_sqrt_div:
  assumes "0 < n" "a \<le> 65025 * n"
  shows "unat (toUint8 E (fsqrt (fdiv (real a) (real n)))) = nat \<lfloor>sqrt (real a / real n)\<rfloor>"
proof -
  let ?q = "real a / real n"
  have q0: "0 \<le> ?q" by simp
  have "real a \<le> 65025 * real n" using assms(2) by (metis of_nat_le_iff of_nat_mult of_nat_numeral)
  then have q1: "?q \<le> 255\<^sup>2" using assms(1) by (simp add: field_simps)
  have "sqrt ?q \<le> 255" by (rule real_le_lsqrt) (use q1 in simp_all)
  then have f1: "\<lfloor>sqrt ?q\<rfloor> \<le> 255" by (simp add: floor_le_iff)
  have f0: "0 \<le> \<lfloor>sqrt ?q\<rfloor>" by simp
  have "toUint8 E (fsqrt (fdiv (real a) (real n))) = word_of_int \<lfloor>sqrt ?q\<rfloor>"
    using assms(1) f1 q0 by (simp add: toUint8_def fdiv_def trunc_int_def not_less[symmetric] del: divide_nonneg_nonneg zero_le_divide_iff)
  moreover have "unat (word_of_int \<lfloor>sqrt ?q\<rfloor> :: 8 word) = nat \<lfloor>sqrt ?q\<rfloor>"
    using f0 f1 by (simp add: unat_eq_nat_uint uint_word_of_int take_bit_int_eq_self)
  ultimately show ?thesis by simp
qed

lemma real_sum_list_sq: "real (\<Sum>p\<leftarrow>xs. (f p)\<^sup>2) = (\<Sum>p\<leftarrow>xs. (real (f p))\<^sup>2)"
  by (induction xs) simp_all

text \<open>
  C2, as the code has it. In quadratic mode, on a grid with at least one pixel, each
  channel of \<^verbatim>\<open>getAverage\<close> is the square root of the sum of the squared channel values
  divided by the number of pixels, with the fraction discarded: the conversion to
  \<^verbatim>\<open>uint8\<close> truncates, nothing rounds to the nearest integer.
\<close>

theorem getAverage_square_truncates:
  assumes "arrays s pixels \<noteq> []" and "avgSqr cfg"
  shows "(let n = length (arrays s pixels); c = fst (getAverage E cfg s pixels) in
            unat (R c) = nat \<lfloor>sqrt (real (\<Sum>p\<leftarrow>arrays s pixels. (unat (R p))\<^sup>2) / real n)\<rfloor> \<and>
            unat (G c) = nat \<lfloor>sqrt (real (\<Sum>p\<leftarrow>arrays s pixels. (unat (G p))\<^sup>2) / real n)\<rfloor> \<and>
            unat (B c) = nat \<lfloor>sqrt (real (\<Sum>p\<leftarrow>arrays s pixels. (unat (B p))\<^sup>2) / real n)\<rfloor>)"
proof -
  let ?xs = "arrays s pixels"
  have n: "0 < length ?xs" using assms(1) by simp
  have avg: "getAverage E cfg s pixels =
    (RGB (toUint8 E (fsqrt (fdiv (real (\<Sum>p\<leftarrow>?xs. (unat (R p))\<^sup>2)) (real (length ?xs)))))
         (toUint8 E (fsqrt (fdiv (real (\<Sum>p\<leftarrow>?xs. (unat (G p))\<^sup>2)) (real (length ?xs)))))
         (toUint8 E (fsqrt (fdiv (real (\<Sum>p\<leftarrow>?xs. (unat (B p))\<^sup>2)) (real (length ?xs))))), s)"
    using assms(2) by (simp add: getAverage_def Let_def fold3 real_sum_list_sq)
  show ?thesis
    unfolding avg Let_def fst_conv RGB.sel
    using toUint8_sqrt_div[OF n sum_sq_unat_le[of R ?xs]]
          toUint8_sqrt_div[OF n sum_sq_unat_le[of G ?xs]]
          toUint8_sqrt_div[OF n sum_sq_unat_le[of B ?xs]]
    by simp
qed

lemma floor_sqrt_5_2: "\<lfloor>sqrt (5 / 2)\<rfloor> = 1"
proof -
  have "1 \<le> sqrt (5 / 2)" by (rule real_le_rsqrt) simp
  moreover have "sqrt (5 / 2) < 2" by (rule real_less_lsqrt) simp_all
  ultimately show ?thesis by (simp add: floor_eq_iff)
qed

lemma round_sqrt_5_2: "round (sqrt (5 / 2)) = 2"
proof -
  have "3 / 2 \<le> sqrt (5 / 2)" by (rule real_le_rsqrt) (simp add: power2_eq_square)
  moreover have "sqrt (5 / 2) < 2" by (rule real_less_lsqrt) simp_all
  ultimately show ?thesis by (simp add: round_def floor_eq_iff)
qed

text \<open>
  C2, as the claim states it, fails on the grid of the two pixels (1, 1, 1) and (2, 2, 2):
  the root of the mean square is the square root of 5 / 2, about 1.58, which rounds to 2
  and which the code turns into 1.
\<close>

theorem getAverage_square_rounds_counterexample:
  "fst (getAverage refRuntime cfgSquare gridOneTwo 0) = RGB 1 1 1 \<and>
   round (sqrt ((1\<^sup>2 + 2\<^sup>2) / 2)) = (2 :: int) \<and>
   uint (R (fst (getAverage refRuntime cfgSquare gridOneTwo 0))) \<noteq>
     round (sqrt ((1\<^sup>2 + 2\<^sup>2) / 2))"
proof -
  have "fst (getAverage refRuntime cfgSquare gridOneTwo 0) = RGB 1 1 1"
    by (simp add: getAverage_def gridOneTwo_def cfgSquare_def fdiv_def toUint8_def
        trunc_int_def floor_sqrt_5_2)
  moreover have "round (sqrt ((1\<^sup>2 + 2\<^sup>2) / 2)) = (2 :: int)"
    using round_sqrt_5_2 by simp
  ultimately show ?thesis by simp
qed

theorem getAverage_square_truncates_witness:
  "arrays gridOneTwo 0 \<noteq> [] \<and> avgSqr cfgSquare \<and>
   unat (R (fst (getAverage refRuntime cfgSquare gridOneTwo 0))) = nat \<lfloor>sqrt ((1 + 4) / 2)\<rfloor>"
  using getAverage_square_truncates[of gridOneTwo 0 cfgSquare refRuntime]
  by (simp add: gridOneTwo_def cfgSquare_def Let_def)

subsection \<open>Average of a grid of one colour\<close>

lemma toUint8_Num_nat:
  assumes "k \<le> 255"
  shows "toUint8 E (Num (real k)) = word_of_nat k"
  using assms by (simp add: toUint8_def trunc_int_def)

lemma toUint8_Num_unat:
  assumes "real k = x" and "k = unat (w :: 8 word)"
  shows "toUint8 E (Num x) = w"
proof -
  have "k \<le> 255" using unsigned_less[of w, where ?'a = nat] assms(2) by simp
  then have "toUint8 E (Num (real k)) = word_of_nat k" by (rule toUint8_Num_nat)
  then show ?thesis using assms by simp
qed

lemma getAverage_uniform_channel:
  assumes "0 < n"
  shows "toUint8 E (fsqrt (fdiv (real n * (real (unat (w :: 8 word)))\<^sup>2) (real n))) = w"
    and "toUint8 E (ffloor (fdiv (real n * real (unat w)) (real n))) = w"
proof -
  define k where "k = unat w"
  have 1: "fsqrt (fdiv (real n * (real k)\<^sup>2) (real n)) = Num (real k)"
    using assms by (simp add: fdiv_def)
  have 2: "ffloor (fdiv (real n * real k) (real n)) = Num (real k)"
    using assms by (simp add: fdiv_def)
  show "toUint8 E (fsqrt (fdiv (real n * (real (unat w))\<^sup>2) (real n))) = w"
    unfolding k_def[symmetric] 1 by (rule toUint8_Num_unat[OF refl k_def])
  show "toUint8 E (ffloor (fdiv (real n * real (unat w)) (real n))) = w"
    unfolding k_def[symmetric] 2 by (rule toUint8_Num_unat[OF refl k_def])
qed

lemma sum_list_uniform:
  assumes "\<forall>p\<in>set xs. p = c"
  shows "(\<Sum>p\<leftarrow>xs. f p) = real (length xs) * f c"
  using assms by (induction xs) (auto simp: algebra_simps)

text \<open>
  C9. On a grid with at least one pixel whose pixels all have the colour \<open>c\<close>, the
  quadratic average is \<open>c\<close> and the linear average is \<open>c\<close>.
\<close>

theorem getAverage_uniform:
  assumes "arrays s pixels \<noteq> []" and "\<forall>p\<in>set (arrays s pixels). p = c"
  shows "fst (getAverage E (cfg\<lparr>avgSqr := True\<rparr>) s pixels) = c \<and>
         fst (getAverage E (cfg\<lparr>avgSqr := False\<rparr>) s pixels) = c"
proof -
  let ?xs = "arrays s pixels"
  have n: "0 < length ?xs" using assms(1) by simp
  note sums = sum_list_uniform[OF assms(2)]
  have "getAverage E (cfg\<lparr>avgSqr := True\<rparr>) s pixels =
    (RGB (toUint8 E (fsqrt (fdiv (real (length ?xs) * (real (unat (R c)))\<^sup>2) (real (length ?xs)))))
         (toUint8 E (fsqrt (fdiv (real (length ?xs) * (real (unat (G c)))\<^sup>2) (real (length ?xs)))))
         (toUint8 E (fsqrt (fdiv (real (length ?xs) * (real (unat (B c)))\<^sup>2) (real (length ?xs))))), s)"
    unfolding getAverage_def Let_def fold3 sums by simp
  then have 1: "fst (getAverage E (cfg\<lparr>avgSqr := True\<rparr>) s pixels) = c"
    unfolding getAverage_uniform_channel(1)[OF n] by simp
  have "getAverage E (cfg\<lparr>avgSqr := False\<rparr>) s pixels =
    (RGB (toUint8 E (ffloor (fdiv (real (length ?xs) * real (unat (R c))) (real (length ?xs)))))
         (toUint8 E (ffloor (fdiv (real (length ?xs) * real (unat (G c))) (real (length ?xs)))))
         (toUint8 E (ffloor (fdiv (real (length ?xs) * real (unat (B c))) (real (length ?xs))))), s)"
    unfolding getAverage_def Let_def fold3 sums by simp
  then have 2: "fst (getAverage E (cfg\<lparr>avgSqr := False\<rparr>) s pixels) = c"
    unfolding getAverage_uniform_channel(2)[OF n] by simp
  show ?thesis using 1 2 by simp
qed

theorem getAverage_uniform_witness:
  "arrays gridUniform 0 \<noteq> [] \<and> set (arrays gridUniform 0) = {RGB 10 200 77} \<and>
   fst (getAverage refRuntime (cfgLinear\<lparr>avgSqr := True\<rparr>) gridUniform 0) = RGB 10 200 77 \<and>
   fst (getAverage refRuntime (cfgLinear\<lparr>avgSqr := False\<rparr>) gridUniform 0) = RGB 10 200 77"
proof -
  have 1: "arrays gridUniform 0 \<noteq> []" by (simp add: gridUniform_def)
  have 2: "\<forall>p\<in>set (arrays gridUniform 0). p = RGB 10 200 77" by (simp add: gridUniform_def)
  have 3: "set (arrays gridUniform 0) = {RGB 10 200 77}" by (simp add: gridUniform_def)
  show ?thesis using 1 3 getAverage_uniform[OF 1 2, of refRuntime cfgLinear] by blast
qed

subsection \<open>Median\<close>

lemma getMedian_eq:
  assumes "pixels < brk s"
  shows "getMedian E s pixels =
    (let list = sortRGB E (arrays s pixels)
     in (if length list div 2 < length list then Inr (list ! (length list div 2))
         else Inl IndexOutOfRange,
         s\<lparr>arrays := (arrays s)(brk s := list), brk := Suc (brk s)\<rparr>))"
proof -
  have ne: "pixels \<noteq> brk s" using assms by simp
  show ?thesis
    using ne by (simp add: getMedian_def make_RGBList_def copy_RGBList_def sort_RGBList_def Let_def)
qed

text \<open>
  C7. On a grid with at least one pixel, \<^verbatim>\<open>getMedian\<close> returns the element at index
  \<open>count div 2\<close> of the pixels as \<^verbatim>\<open>sort.Sort\<close> leaves them: a rearrangement of the grid's
  pixels in which the hue never decreases. So the result is a pixel of the grid.
\<close>

theorem getMedian_upper_middle:
  assumes "runtime_ok E" and "pixels < brk s" and "arrays s pixels \<noteq> []"
  shows "(let list = sortRGB E (arrays s pixels); i = length (arrays s pixels) div 2 in
           mset list = mset (arrays s pixels) \<and>
           sorted_wrt (\<lambda>x y. \<not> RGB_Less y x) list \<and>
           sorted (map hueKey list) \<and>
           fst (getMedian E s pixels) = Inr (list ! i) \<and>
           list ! i \<in> set (arrays s pixels))"
proof -
  let ?xs = "arrays s pixels"
  let ?list = "sortRGB E ?xs"
  have srt: "sorts RGB_Less (sortRGB E)" using assms(1) by (simp add: runtime_ok_def)
  have len: "length ?list = length ?xs" using srt by (rule sorts_length)
  have pos: "length ?xs div 2 < length ?xs" using assms(3) by simp
  have 1: "mset ?list = mset ?xs" using srt by (rule sorts_mset)
  have 2: "sorted_wrt (\<lambda>x y. \<not> RGB_Less y x) ?list" using srt by (rule sorts_sorted)
  have 3: "sorted (map hueKey ?list)"
    using 2 by (simp add: sorted_map RGB_Less_hueKey not_less)
  have 4: "fst (getMedian E s pixels) = Inr (?list ! (length ?xs div 2))"
    using pos by (simp add: getMedian_eq[OF assms(2)] Let_def len)
  have "?list ! (length ?xs div 2) \<in> set ?list" using pos len by simp
  then have 5: "?list ! (length ?xs div 2) \<in> set ?xs" using sorts_set[OF srt] by simp
  show ?thesis using 1 2 3 4 5 by (simp add: Let_def)
qed

lemma hueKey_red: "hueKey (RGB 255 0 0) = 0"
  by (simp add: hueKey_def ToHSL_def Let_def)
lemma hueKey_green: "hueKey (RGB 0 255 0) = 1 / 3"
  by (simp add: hueKey_def ToHSL_def Let_def)
lemma hueKey_blue: "hueKey (RGB 0 0 255) = 2 / 3"
  by (simp add: hueKey_def ToHSL_def Let_def)


lemma sort_gridBGRG: "sortRGB refRuntime (arrays gridBGRG 0) = [RGB 255 0 0, RGB 0 255 0, RGB 0 255 0, RGB 0 0 255]"
  by (simp add: refRuntime_def gridBGRG_def hueKey_red hueKey_green hueKey_blue)

theorem getMedian_upper_middle_witness:
  "runtime_ok refRuntime \<and> 0 < brk gridBGRG \<and> arrays gridBGRG 0 \<noteq> [] \<and>
   fst (getMedian refRuntime gridBGRG 0) = Inr (RGB 0 255 0) \<and>
   RGB 0 255 0 \<in> set (arrays gridBGRG 0)"
proof -
  have 1: "0 < brk gridBGRG" and 2: "arrays gridBGRG 0 \<noteq> []"
    by (simp_all add: gridBGRG_def)
  have 3: "length (arrays gridBGRG 0) div 2 = 2" by (simp add: gridBGRG_def)
  show ?thesis
    using getMedian_upper_middle[OF refRuntime_ok 1 2] refRuntime_ok 1 2
    by (simp add: Let_def sort_gridBGRG 3)
qed

subsection \<open>Mode\<close>

lemma hexDigit_inj:
  assumes "a < 16" "b < 16" "hexDigit a = hexDigit b"
  shows "a = b"
proof -
  have d: "distinct ''0123456789ABCDEF''" by simp
  have l: "length ''0123456789ABCDEF'' = 16" by simp
  show ?thesis
    using assms nth_eq_iff_index_eq[OF d, of a b] unfolding hexDigit_def l by simp
qed

lemma hex2_inj:
  assumes "hex2 v = hex2 w"
  shows "v = w"
proof -
  have v: "unat v div 16 < 16" "unat v mod 16 < 16"
    using unsigned_less[of v, where ?'a = nat] by (simp_all add: less_mult_imp_div_less)
  have w: "unat w div 16 < 16" "unat w mod 16 < 16"
    using unsigned_less[of w, where ?'a = nat] by (simp_all add: less_mult_imp_div_less)
  have "unat v div 16 = unat w div 16" "unat v mod 16 = unat w mod 16"
    using assms v w by (auto simp: hex2_def intro: hexDigit_inj)
  then have "unat v = unat w" by (metis div_mult_mod_eq)
  then show ?thesis by (rule word_unat_eq_iff[THEN iffD2])
qed

lemma Hex_inj:
  assumes "Hex p = Hex q"
  shows "p = q"
proof -
  have "hex2 (R p) @ hex2 (G p) @ hex2 (B p) = hex2 (R q) @ hex2 (G q) @ hex2 (B q)"
    using assms by (simp add: Hex_def)
  then have "hex2 (R p) = hex2 (R q) \<and> hex2 (G p) = hex2 (G q) \<and> hex2 (B p) = hex2 (B q)"
    by (simp add: hex2_def)
  then show ?thesis by (auto intro: hex2_inj RGB.expand)
qed


lemma set_update_distinct:
  "distinct (map fst al) \<Longrightarrow> set (AList.update k v al) = insert (k, v) {e \<in> set al. fst e \<noteq> k}"
  by (induction al) (auto simp: rev_image_eqI)

lemma set_update_present:
  assumes "distinct (map fst al)" and "(k, v) \<in> set al"
  shows "set (AList.update k v' al) = insert (k, v') (set al - {(k, v)})"
proof -
  have uniq: "e = (k, v)" if "e \<in> set al" "fst e = k" for e
  proof -
    have "(k, snd e) \<in> set al" using that by (metis prod.collapse)
    then have "snd e = v" using assms(2) by (rule eq_key_imp_eq_value[OF assms(1)])
    then show ?thesis using that(2) by (metis prod.collapse)
  qed
  have "{e \<in> set al. fst e \<noteq> k} = set al - {(k, v)}"
  proof (intro set_eqI iffI)
    fix e assume "e \<in> {e \<in> set al. fst e \<noteq> k}"
    then have "e \<in> set al" "fst e \<noteq> k" by simp_all
    then show "e \<in> set al - {(k, v)}" by (metis DiffI fst_conv singletonD)
  next
    fix e assume "e \<in> set al - {(k, v)}"
    then have 1: "e \<in> set al" and 2: "e \<noteq> (k, v)" by simp_all
    have "fst e \<noteq> k" using uniq[OF 1] 2 by blast
    then show "e \<in> {e \<in> set al. fst e \<noteq> k}" using 1 by simp
  qed
  then show ?thesis by (simp add: set_update_distinct[OF assms(1)])
qed

lemma countPixel_inv:
  assumes "countInv m seen"
  shows "countInv (countPixel p m) (seen @ [p])"
proof (cases "map_of m (Hex p)")
  case None
  let ?new = "\<lparr>Key = Hex p, Value = 0, Color = p\<rparr>"
  have nk: "\<forall>e\<in>set m. fst e \<noteq> Hex p"
    using None by (metis map_of_eq_None_iff imageI)
  have cp: "countPixel p m = AList.update (Hex p) (?new\<lparr>Value := 1\<rparr>) (AList.update (Hex p) ?new m)"
    using None by (simp add: countPixel_def Let_def lookupCount_def update_conv')
  have d: "distinct (map fst m)" using assms by (simp add: countInv_def)
  have "{e \<in> set m. fst e \<noteq> Hex p} = set m" using nk by blast
  then have s: "set (countPixel p m) = insert (Hex p, ?new\<lparr>Value := 1\<rparr>) (set m)"
    unfolding cp update_last by (simp add: set_update_distinct[OF d])
  have "distinct (map fst (countPixel p m))"
    unfolding cp by (intro distinct_update d)
  moreover have "\<forall>e\<in>set (countPixel p m). fst e = Hex (Color (snd e))"
    unfolding s using assms by (simp add: countInv_def)
  moreover have "(Color \<circ> snd) ` set (countPixel p m) = set (seen @ [p])"
    unfolding s using assms by (simp add: countInv_def)
  ultimately show ?thesis by (simp add: countInv_def)
next
  case (Some cc)
  have mem: "(Hex p, cc) \<in> set m" using Some by (rule map_of_SomeD)
  have d: "distinct (map fst m)" using assms by (simp add: countInv_def)
  have "fst (Hex p, cc) = Hex (Color (snd (Hex p, cc)))"
    using assms mem unfolding countInv_def by blast
  then have col: "Color cc = p" using Hex_inj[of p "Color cc"] by simp
  have cp: "countPixel p m = AList.update (Hex p) (cc\<lparr>Value := Value cc + 1\<rparr>) m"
    using Some by (simp add: countPixel_def Let_def lookupCount_def)
  have s: "set (countPixel p m) = insert (Hex p, cc\<lparr>Value := Value cc + 1\<rparr>) (set m - {(Hex p, cc)})"
    unfolding cp using d mem by (rule set_update_present)
  have "(Color \<circ> snd) ` insert (Hex p, cc) (set m - {(Hex p, cc)})
      = insert (Color cc) ((Color \<circ> snd) ` (set m - {(Hex p, cc)}))"
    by (simp only: image_insert comp_apply snd_conv)
  then have m: "(Color \<circ> snd) ` set m = insert (Color cc) ((Color \<circ> snd) ` (set m - {(Hex p, cc)}))"
    unfolding insert_Diff[OF mem] .
  have "(Color \<circ> snd) ` set (countPixel p m)
      = insert ((Color \<circ> snd) (Hex p, cc\<lparr>Value := Value cc + 1\<rparr>))
          ((Color \<circ> snd) ` (set m - {(Hex p, cc)}))"
    unfolding s by (rule image_insert)
  also have "(Color \<circ> snd) (Hex p, cc\<lparr>Value := Value cc + 1\<rparr>) = Color cc" by simp
  finally have img: "(Color \<circ> snd) ` set (countPixel p m) = (Color \<circ> snd) ` set m"
    by (rule trans[OF _ m[symmetric]])
  have "distinct (map fst (countPixel p m))"
    unfolding cp by (intro distinct_update d)
  moreover have "\<forall>e\<in>set (countPixel p m). fst e = Hex (Color (snd e))"
    unfolding s using assms col by (simp add: countInv_def)
  moreover have "p \<in> (Color \<circ> snd) ` set m" using col by (subst m) simp
  then have "(Color \<circ> snd) ` set (countPixel p m) = set (seen @ [p])"
    unfolding img using assms by (auto simp: countInv_def)
  ultimately show ?thesis by (simp add: countInv_def)
qed

lemma fold_countPixel_inv:
  assumes "countInv m seen"
  shows "countInv (fold countPixel xs m) (seen @ xs)"
  using assms
proof (induction xs arbitrary: m seen)
  case (Cons x xs)
  show ?case using Cons.IH[OF countPixel_inv[OF Cons.prems, of x]] by simp
qed simp

lemma countInv_colours:
  assumes "countInv m seen"
  shows "distinct (map (Color \<circ> snd) m)" and "set (map (Color \<circ> snd) m) = set seen"
proof -
  have d: "distinct (map fst m)" and k: "\<forall>e\<in>set m. fst e = Hex (Color (snd e))"
    using assms by (simp_all add: countInv_def)
  have "inj_on (Color \<circ> snd) (set m)"
  proof (rule inj_onI)
    fix x y assume x: "x \<in> set m" and y: "y \<in> set m" and e: "(Color \<circ> snd) x = (Color \<circ> snd) y"
    have "fst x = fst y" using k x y e by simp
    have fx: "(fst x, snd x) \<in> set m" using x by simp
    have fy: "(fst x, snd y) \<in> set m" using y \<open>fst x = fst y\<close> by simp
    have "snd x = snd y" using fx fy by (rule eq_key_imp_eq_value[OF d])
    with \<open>fst x = fst y\<close> show "x = y" by (rule prod_eqI)
  qed
  moreover have "distinct m" using d by (rule distinct_map[THEN iffD1, THEN conjunct1])
  ultimately show "distinct (map (Color \<circ> snd) m)" by (simp add: distinct_map)
  show "set (map (Color \<circ> snd) m) = set seen" using assms by (simp add: countInv_def)
qed

lemma counted_colours:
  "distinct (map (Color \<circ> snd) (fold countPixel xs []))"
  "set (map (Color \<circ> snd) (fold countPixel xs [])) = set xs"
proof -
  have "countInv [] []" by (simp add: countInv_def)
  then have "countInv (fold countPixel xs []) ([] @ xs)" by (rule fold_countPixel_inv)
  then show "distinct (map (Color \<circ> snd) (fold countPixel xs []))"
    "set (map (Color \<circ> snd) (fold countPixel xs [])) = set xs"
    using countInv_colours by simp_all
qed

lemma fillResult_length: "length (fillResult counts n i result) = length result"
proof (induction counts n i result rule: fillResult.induct)
  case (1 counts n i result)
  show ?case
    by (subst fillResult.simps) (simp add: 1)
qed

lemma fillResult_nth:
  assumes "0 \<le> i" and "j < length result"
  shows "fillResult counts n i result ! j =
           (if nat i \<le> j \<and> j < length counts \<and> int j < n then Color (counts ! j) else result ! j)"
  using assms
proof (induction counts n i result rule: fillResult.induct)
  case (1 counts n i result)
  show ?case
  proof (cases "i < int (length counts) \<and> i < n")
    case True
    have "fillResult counts n i result ! j =
          fillResult counts n (i + 1) (result[nat i := Color (counts ! nat i)]) ! j"
      using True by (subst fillResult.simps) simp
    also have "\<dots> = (if nat (i + 1) \<le> j \<and> j < length counts \<and> int j < n then Color (counts ! j)
                      else result[nat i := Color (counts ! nat i)] ! j)"
      using "1.IH"[OF True] "1.prems" by simp
    also have "\<dots> = (if nat i \<le> j \<and> j < length counts \<and> int j < n then Color (counts ! j)
                      else result ! j)"
    proof (cases "j = nat i")
      case True
      then show ?thesis using \<open>i < int (length counts) \<and> i < n\<close> "1.prems" by auto
    next
      case False
      then show ?thesis using "1.prems" by (auto simp: nat_add_distrib)
    qed
    finally show ?thesis .
  next
    case False
    have "fillResult counts n i result = result"
      using False by (subst fillResult.simps) auto
    moreover have "\<not> (nat i \<le> j \<and> j < length counts \<and> int j < n)"
      using False "1.prems" by auto
    ultimately show ?thesis by auto
  qed
qed

lemma fillResult_zero:
  assumes "0 \<le> n"
  shows "fillResult counts n 0 (replicate (nat n) z) =
           map Color (take (nat n) counts) @ replicate (nat n - length counts) z"
proof (rule nth_equalityI)
  show "length (fillResult counts n 0 (replicate (nat n) z)) =
        length (map Color (take (nat n) counts) @ replicate (nat n - length counts) z)"
    by (simp add: fillResult_length)
next
  fix j assume "j < length (fillResult counts n 0 (replicate (nat n) z))"
  then have j: "j < nat n" by (simp add: fillResult_length)
  then have jn: "int j < n" by simp
  show "fillResult counts n 0 (replicate (nat n) z) ! j =
        (map Color (take (nat n) counts) @ replicate (nat n - length counts) z) ! j"
  proof (cases "j < length counts")
    case True
    then show ?thesis using j jn by (simp add: fillResult_nth nth_append)
  next
    case False
    then show ?thesis using j jn by (simp add: fillResult_nth nth_append)
  qed
qed

lemma getMode_eq:
  assumes "0 \<le> genMode cfg"
  shows "getMode E cfg s pixels =
    (let counts = sortCountsRev E (sortCounts E (rangeMap E (fold countPixel (arrays s pixels) [])));
         n = nat (genMode cfg)
     in (Inr (brk s),
         s\<lparr>arrays := (arrays s)
              (brk s := sortRGB E (map Color (take n counts) @ replicate (n - length counts) (RGB 0 0 0))),
           brk := Suc (brk s)\<rparr>))"
  using assms
  by (simp add: getMode_def make_RGBList_def sort_RGBList_def Let_def fillResult_zero)

lemma ranked_counts:
  assumes "runtime_ok E"
    and counts_def: "counts = sortCountsRev E (sortCounts E (rangeMap E (fold countPixel xs [])))"
  shows "distinct (map Color counts)" and "set (map Color counts) = set xs"
    and "length counts = card (set xs)"
proof -
  let ?m = "fold countPixel xs []"
  have a: "sorts colorCount_Less (sortCounts E)" and b: "sorts reverse_Less (sortCountsRev E)"
    and c: "mset (rangeMap E ?m) = mset (map snd ?m)"
    using assms(1) unfolding runtime_ok_def by blast+
  have "mset counts = mset (map snd ?m)"
    unfolding counts_def sorts_mset[OF b] sorts_mset[OF a] c ..
  then have ms: "mset (map Color counts) = mset (map (Color \<circ> snd) ?m)"
    by (metis mset_map map_map)
  show d: "distinct (map Color counts)"
    using counted_colours(1)[of xs] ms by (metis mset_eq_imp_distinct_iff)
  show s: "set (map Color counts) = set xs"
    using counted_colours(2)[of xs] ms by (metis mset_eq_setD)
  have "length counts = length (map Color counts)" by simp
  also have "\<dots> = card (set (map Color counts))" using d by (rule distinct_card[symmetric])
  finally show "length counts = card (set xs)" unfolding s .
qed

text \<open>
  C1, as the code has it. For \<open>N > 0\<close>, \<^verbatim>\<open>getMode\<close> returns a slice of length \<open>N\<close>, always,
  in which the hue never decreases. It holds \<open>min N d\<close> colours of the grid, each once,
  where \<open>d\<close> is the number of distinct colours of the grid, and \<open>N - min N d\<close> entries
  of black (0, 0, 0), the zero value that \<^verbatim>\<open>make\<close> put there: a grid with fewer than
  \<open>N\<close> colours gives a result padded with black, not a shorter one.
\<close>

theorem getMode_fixed_length:
  assumes "runtime_ok E" and "0 < genMode cfg"
  shows "\<exists>result s' sel.
           getMode E cfg s pixels = (Inr result, s') \<and>
           length (arrays s' result) = nat (genMode cfg) \<and>
           sorted_wrt (\<lambda>x y. \<not> RGB_Less y x) (arrays s' result) \<and>
           distinct sel \<and> set sel \<subseteq> set (arrays s pixels) \<and>
           length sel = min (nat (genMode cfg)) (card (set (arrays s pixels))) \<and>
           mset (arrays s' result) =
             mset sel + replicate_mset (nat (genMode cfg) - length sel) (RGB 0 0 0)"
proof -
  let ?xs = "arrays s pixels"
  let ?n = "nat (genMode cfg)"
  define counts where
    "counts = sortCountsRev E (sortCounts E (rangeMap E (fold countPixel ?xs [])))"
  define sel where "sel = map Color (take ?n counts)"
  define result where "result = sortRGB E (sel @ replicate (?n - length counts) (RGB 0 0 0))"
  define s' where "s' = s\<lparr>arrays := (arrays s)(brk s := result), brk := Suc (brk s)\<rparr>"
  have srt: "sorts RGB_Less (sortRGB E)" using assms(1) by (simp add: runtime_ok_def)
  have cd: "distinct (map Color counts)" and cs: "set (map Color counts) = set ?xs"
    and cl: "length counts = card (set ?xs)"
    using ranked_counts[OF assms(1) counts_def] by simp_all
  have sel_take: "sel = take ?n (map Color counts)" by (simp add: sel_def take_map)
  have 1: "getMode E cfg s pixels = (Inr (brk s), s')"
    using assms(2) by (simp add: getMode_eq Let_def s'_def result_def sel_def counts_def)
  have res: "arrays s' (brk s) = result" by (simp add: s'_def)
  have sl: "length sel = min ?n (card (set ?xs))" by (simp add: sel_def cl min.commute)
  have pad: "?n - length counts = ?n - length sel" using sl cl by auto
  have 2: "length result = ?n"
    unfolding result_def sorts_length[OF srt] using sl cl by auto
  have 3: "sorted_wrt (\<lambda>x y. \<not> RGB_Less y x) result"
    unfolding result_def using srt by (rule sorts_sorted)
  have 4: "distinct sel" unfolding sel_take using cd by (rule distinct_take)
  have 5: "set sel \<subseteq> set ?xs" unfolding sel_take using set_take_subset[of ?n "map Color counts"] cs by simp
  have 6: "mset result = mset sel + replicate_mset (?n - length sel) (RGB 0 0 0)"
    unfolding result_def sorts_mset[OF srt] pad by simp
  show ?thesis using 1 2 3 4 5 sl 6 res by blast
qed



lemma hueKey_white: "hueKey (RGB 255 255 255) = 0"
  by (simp add: hueKey_def ToHSL_def Let_def)

lemma hueKey_black: "hueKey (RGB 0 0 0) = 0"
  by (simp add: hueKey_def ToHSL_def Let_def)

lemma Hex_white: "Hex (RGB 255 255 255) = ''#FFFFFF''"
  by (simp add: Hex_def hex2_def hexDigit_def)

lemma counts_gridWhite:
  "fold countPixel (arrays gridWhite 0) [] =
     [(''#FFFFFF'', \<lparr>Key = ''#FFFFFF'', Value = 2, Color = RGB 255 255 255\<rparr>)]"
  by (simp add: gridWhite_def countPixel_def lookupCount_def Hex_white Let_def)

text \<open>
  C1, as the claim states it, fails on a grid of two white pixels with \<open>N = 3\<close>: the
  claim gives a result of length \<open>min 3 1 = 1\<close> without duplicates, the code returns
  three entries, two of them black.
\<close>

theorem getMode_single_colour_counterexample:
  "fst (getMode refRuntime cfgMode3 gridWhite 0) = Inr 1 \<and>
   arrays (snd (getMode refRuntime cfgMode3 gridWhite 0)) 1 =
     [RGB 255 255 255, RGB 0 0 0, RGB 0 0 0] \<and>
   min 3 (card (set (arrays gridWhite 0))) = 1 \<and>
   length (arrays (snd (getMode refRuntime cfgMode3 gridWhite 0)) 1) \<noteq>
     min (nat (genMode cfgMode3)) (card (set (arrays gridWhite 0))) \<and>
   \<not> distinct (arrays (snd (getMode refRuntime cfgMode3 gridWhite 0)) 1)"
proof -
  have g: "0 \<le> genMode cfgMode3" by (simp add: cfgMode3_def)
  have c: "card (set (arrays gridWhite 0)) = 1" by (simp add: gridWhite_def)
  have b: "brk gridWhite = 1" by (simp add: gridWhite_def)
  have n: "nat (genMode cfgMode3) = 3" by (simp add: cfgMode3_def)
  have "sortRGB refRuntime ([RGB 255 255 255] @ replicate 2 (RGB 0 0 0))
      = [RGB 255 255 255, RGB 0 0 0, RGB 0 0 0]"
    by (simp add: refRuntime_def hueKey_white hueKey_black numeral_2_eq_2)
  then show ?thesis
    unfolding getMode_eq[OF g] counts_gridWhite Let_def n b c
    by (simp add: refRuntime_def)
qed

theorem getMode_fixed_length_witness:
  "runtime_ok refRuntime \<and> 0 < genMode cfgMode3 \<and>
   (\<exists>result s' sel.
      getMode refRuntime cfgMode3 gridWhite 0 = (Inr result, s') \<and>
      length (arrays s' result) = 3 \<and>
      distinct sel \<and> set sel \<subseteq> set (arrays gridWhite 0) \<and> length sel = 1 \<and>
      mset (arrays s' result) = mset sel + replicate_mset 2 (RGB 0 0 0))"
proof -
  have g: "0 < genMode cfgMode3" by (simp add: cfgMode3_def)
  have n: "nat (genMode cfgMode3) = 3" by (simp add: cfgMode3_def)
  have c: "card (set (arrays gridWhite 0)) = 1" by (simp add: gridWhite_def)
  obtain result s' sel where
    *: "getMode refRuntime cfgMode3 gridWhite 0 = (Inr result, s')"
       "length (arrays s' result) = nat (genMode cfgMode3)"
       "distinct sel" "set sel \<subseteq> set (arrays gridWhite 0)"
       "length sel = min (nat (genMode cfgMode3)) (card (set (arrays gridWhite 0)))"
       "mset (arrays s' result) =
          mset sel + replicate_mset (nat (genMode cfgMode3) - length sel) (RGB 0 0 0)"
    using getMode_fixed_length[OF refRuntime_ok g, of gridWhite 0] by blast
  have l: "length sel = 1" using *(5) by (simp add: n c)
  have "mset (arrays s' result) = mset sel + replicate_mset 2 (RGB 0 0 0)"
    using *(6) by (simp add: n l)
  then show ?thesis using refRuntime_ok g * l n by auto
qed

subsection \<open>The input slice is left as it was\<close>

lemma getAverage_store: "snd (getAverage E cfg s pixels) = s"
  by (simp add: getAverage_def Let_def split: prod.splits)

lemma getMedian_store:
  "arrays (snd (getMedian E s pixels)) a = (if a = brk s then arrays (snd (getMedian E s pixels)) a else arrays s a)"
  by (simp add: getMedian_def make_RGBList_def copy_RGBList_def sort_RGBList_def Let_def)

lemma getMode_store:
  "arrays (snd (getMode E cfg s pixels)) a = (if a = brk s then arrays (snd (getMode E cfg s pixels)) a else arrays s a)"
  by (simp add: getMode_def make_RGBList_def sort_RGBList_def Let_def)

text \<open>
  C10. \<^verbatim>\<open>getAverage\<close>, \<^verbatim>\<open>getMedian\<close> and \<^verbatim>\<open>getMode\<close> leave the array of their input
  slice as it was, and every other array that existed before the call: the sorts run on
  arrays that the functions made themselves (the median sorts a copy).
\<close>

theorem reductions_leave_input:
  assumes "pixels < brk s"
  shows "arrays (snd (getAverage E cfg s pixels)) pixels = arrays s pixels \<and>
         arrays (snd (getMedian E s pixels)) pixels = arrays s pixels \<and>
         arrays (snd (getMode E cfg s pixels)) pixels = arrays s pixels \<and>
         (\<forall>a<brk s. arrays (snd (getAverage E cfg s pixels)) a = arrays s a \<and>
                    arrays (snd (getMedian E s pixels)) a = arrays s a \<and>
                    arrays (snd (getMode E cfg s pixels)) a = arrays s a)"
proof -
  have "arrays (snd (getAverage E cfg s pixels)) a = arrays s a \<and>
        arrays (snd (getMedian E s pixels)) a = arrays s a \<and>
        arrays (snd (getMode E cfg s pixels)) a = arrays s a" if "a < brk s" for a
  proof -
    have ne: "a \<noteq> brk s" using that by simp
    show ?thesis
      using getMedian_store[of E s pixels a] getMode_store[of E cfg s pixels a] ne
      by (simp add: getAverage_store)
  qed
  then show ?thesis using assms by blast
qed

theorem reductions_leave_input_witness:
  "0 < brk gridBGRG \<and>
   arrays (snd (getAverage refRuntime cfgMode3 gridBGRG 0)) 0 = arrays gridBGRG 0 \<and>
   arrays (snd (getMedian refRuntime gridBGRG 0)) 0 =
     [RGB 0 0 255, RGB 0 255 0, RGB 255 0 0, RGB 0 255 0] \<and>
   arrays (snd (getMedian refRuntime gridBGRG 0)) 1 =
     [RGB 255 0 0, RGB 0 255 0, RGB 0 255 0, RGB 0 0 255] \<and>
   arrays (snd (getMode refRuntime cfgMode3 gridBGRG 0)) 0 = arrays gridBGRG 0"
proof -
  have 1: "0 < brk gridBGRG" by (simp add: gridBGRG_def)
  have 2: "arrays gridBGRG 0 = [RGB 0 0 255, RGB 0 255 0, RGB 255 0 0, RGB 0 255 0]"
    by (simp add: gridBGRG_def)
  have 3: "arrays (snd (getMedian refRuntime gridBGRG 0)) 1 =
     [RGB 255 0 0, RGB 0 255 0, RGB 0 255 0, RGB 0 0 255]"
    unfolding getMedian_eq[OF 1] Let_def sort_gridBGRG by (simp add: gridBGRG_def)
  show ?thesis
    using reductions_leave_input[OF 1, of refRuntime cfgMode3] 1 2 3 by simp
qed

subsection \<open>The grid without pixels\<close>

text \<open>
  C4, as the code has it. The reductions have no error result and none reports an empty
  frame. On a grid without pixels \<^verbatim>\<open>getMedian\<close> indexes an empty slice and panics,
  \<^verbatim>\<open>getAverage\<close> divides 0 by 0 and returns the colour whose channels are the
  conversion of NaN to \<^verbatim>\<open>uint8\<close>, and \<^verbatim>\<open>getMode\<close> with \<open>N > 0\<close> returns \<open>N\<close> entries
  of black.
\<close>

theorem reductions_empty_grid:
  assumes "runtime_ok E" and "pixels < brk s" and "arrays s pixels = []"
  shows "fst (getMedian E s pixels) = Inl IndexOutOfRange \<and>
         fst (getAverage E cfg s pixels) =
           RGB (convUndef E NaN) (convUndef E NaN) (convUndef E NaN) \<and>
         (0 < genMode cfg \<longrightarrow>
            fst (getMode E cfg s pixels) = Inr (brk s) \<and>
            arrays (snd (getMode E cfg s pixels)) (brk s) =
              replicate (nat (genMode cfg)) (RGB 0 0 0))"
proof -
  have a: "sorts RGB_Less (sortRGB E)" and b: "sorts colorCount_Less (sortCounts E)"
    and c: "sorts reverse_Less (sortCountsRev E)"
    using assms(1) unfolding runtime_ok_def by blast+
  have d: "mset (rangeMap E []) = mset (map snd [])"
    using assms(1) by (simp add: runtime_ok_def)
  have r: "rangeMap E [] = []" using d by simp
  have 1: "fst (getMedian E s pixels) = Inl IndexOutOfRange"
    by (simp add: getMedian_eq[OF assms(2)] assms(3) sorts_Nil[OF a])
  have 2: "fst (getAverage E cfg s pixels) =
           RGB (convUndef E NaN) (convUndef E NaN) (convUndef E NaN)"
    by (simp add: getAverage_def assms(3) fdiv_def toUint8_def)
  have 3: "fst (getMode E cfg s pixels) = Inr (brk s) \<and>
           arrays (snd (getMode E cfg s pixels)) (brk s) = replicate (nat (genMode cfg)) (RGB 0 0 0)"
    if "0 < genMode cfg"
  proof -
    have g: "0 \<le> genMode cfg" using that by simp
    show ?thesis
      by (simp add: getMode_eq[OF g] Let_def assms(3) r sorts_Nil[OF b] sorts_Nil[OF c]
          sorts_replicate[OF a])
  qed
  show ?thesis using 1 2 3 by blast
qed

text \<open>
  C4, as the claim states it, fails on the empty grid: \<^verbatim>\<open>getMedian\<close> panics, and
  \<^verbatim>\<open>getAverage\<close> and \<^verbatim>\<open>getMode\<close> succeed with black.
\<close>

theorem reductions_empty_grid_counterexample:
  "fst (getMedian refRuntime gridEmpty 0) = Inl IndexOutOfRange \<and>
   fst (getAverage refRuntime cfgLinear gridEmpty 0) = RGB 0 0 0 \<and>
   fst (getMode refRuntime cfgMode3 gridEmpty 0) = Inr 1 \<and>
   arrays (snd (getMode refRuntime cfgMode3 gridEmpty 0)) 1 = [RGB 0 0 0, RGB 0 0 0, RGB 0 0 0]"
proof -
  have 1: "fst (getMedian refRuntime gridEmpty 0) = Inl IndexOutOfRange"
    by (simp add: getMedian_def make_RGBList_def copy_RGBList_def sort_RGBList_def
        gridEmpty_def refRuntime_def)
  have 2: "fst (getAverage refRuntime cfgLinear gridEmpty 0) = RGB 0 0 0"
    by (simp add: getAverage_def gridEmpty_def cfgLinear_def fdiv_def toUint8_def refRuntime_def)
  have g: "0 \<le> genMode cfgMode3" by (simp add: cfgMode3_def)
  have "sort_key hueKey (replicate 3 (RGB 0 0 0)) = [RGB 0 0 0, RGB 0 0 0, RGB 0 0 0]"
    by (simp add: numeral_3_eq_3)
  then have 3: "fst (getMode refRuntime cfgMode3 gridEmpty 0) = Inr 1 \<and>
    arrays (snd (getMode refRuntime cfgMode3 gridEmpty 0)) 1 = [RGB 0 0 0, RGB 0 0 0, RGB 0 0 0]"
    unfolding getMode_eq[OF g] Let_def
    by (simp add: gridEmpty_def cfgMode3_def refRuntime_def)
  show ?thesis using 1 2 3 by simp
qed

theorem reductions_empty_grid_witness:
  "runtime_ok refRuntime \<and> 0 < brk gridEmpty \<and> arrays gridEmpty 0 = [] \<and> 0 < genMode cfgMode3 \<and>
   fst (getMedian refRuntime gridEmpty 0) = Inl IndexOutOfRange \<and>
   arrays (snd (getMode refRuntime cfgMode3 gridEmpty 0)) (brk gridEmpty) = replicate 3 (RGB 0 0 0)"
proof -
  have 1: "0 < brk gridEmpty" and 2: "arrays gridEmpty 0 = []" by (simp_all add: gridEmpty_def)
  have 3: "0 < genMode cfgMode3" and 4: "nat (genMode cfgMode3) = 3" by (simp_all add: cfgMode3_def)
  show ?thesis
    using reductions_empty_grid[OF refRuntime_ok 1 2, of cfgMode3] refRuntime_ok 1 2 3 4 by simp
qed

subsection \<open>The line image\<close>

lemma RGBA_Set_Bounds [simp]: "Bounds (RGBA_Set img x y c) = Bounds img"
  by (simp add: RGBA_Set_def)

lemma inBounds_cong: "Bounds a = Bounds b \<Longrightarrow> inBounds a x y = inBounds b x y"
  by (simp add: inBounds_def)

lemma RGBA_Set_Pix:
  "Pix (RGBA_Set img x y c) q = (if q = (x, y) \<and> inBounds img x y then c else Pix img q)"
  by (simp add: RGBA_Set_def)

lemma fold_Set_Bounds [simp]: "Bounds (fold (\<lambda>x im. RGBA_Set im x y c) xs img) = Bounds img"
  by (induction xs arbitrary: img) simp_all

lemma fold_Set_Pix:
  "Pix (fold (\<lambda>x im. RGBA_Set im x y c) xs img) (x', y') =
     (if y' = y \<and> x' \<in> set xs \<and> inBounds img x' y then c else Pix img (x', y'))"
proof (induction xs arbitrary: img)
  case Nil
  show ?case by simp
next
  case (Cons a xs)
  have b: "inBounds (RGBA_Set img a y c) x' y = inBounds img x' y"
    by (rule inBounds_cong) simp
  show ?case
    by (auto simp add: Cons.IH b RGBA_Set_Pix)
qed

lemma setRow_Bounds [simp]: "Bounds (setRow x0 x1 y c img) = Bounds img"
  by (simp add: setRow_def)

lemma setRow_Pix:
  "Pix (setRow x0 x1 y c img) (x', y') =
     (if y' = y \<and> x0 \<le> x' \<and> x' < x1 \<and> inBounds img x' y then c else Pix img (x', y'))"
  unfolding setRow_def fold_Set_Pix by auto

lemma band_Bounds [simp]: "Bounds (fold (\<lambda>i. setRow x0 x1 (b + i) c) is img) = Bounds img"
  by (induction "is" arbitrary: img) simp_all

lemma band_Pix:
  "Pix (fold (\<lambda>i. setRow x0 x1 (b + i) c) is img) (x', y') =
     (if y' - b \<in> set is \<and> x0 \<le> x' \<and> x' < x1 \<and> inBounds img x' y' then c else Pix img (x', y'))"
proof (induction "is" arbitrary: img)
  case Nil
  show ?case by simp
next
  case (Cons a "is")
  have b: "inBounds (setRow x0 x1 (b + a) c img) x' y' = inBounds img x' y'"
    by (rule inBounds_cong) simp
  show ?case
    by (auto simp add: Cons.IH b setRow_Pix)
qed

lemma genLineImage_lineStep:
  "genLineImage cfg frames =
     fold (lineStep cfg) (enumerate 0 frames)
       (NewRGBA (Rect 0 0 (width cfg) (int (length frames) * lineHeight cfg)))"
  by (simp add: genLineImage_def)

lemma lineStep_Bounds [simp]: "Bounds (lineStep cfg yr img) = Bounds img"
  by (cases yr) (simp add: lineStep_def)

lemma lineStep_Pix:
  "Pix (lineStep cfg (k, row) img) (x, y) =
     (if int k * lineHeight cfg \<le> y \<and> y < int k * lineHeight cfg + lineHeight cfg \<and>
         0 \<le> x \<and> x < width cfg \<and> inBounds img x y
      then RGB_RGBA row else Pix img (x, y))"
  unfolding lineStep_def by (auto simp add: band_Pix)

lemma lines_Bounds [simp]: "Bounds (fold (lineStep cfg) rows img) = Bounds img"
  by (induction rows arbitrary: img) simp_all

lemma lines_Pix:
  assumes "0 \<le> lineHeight cfg" and "i < length frames"
    and "int i * lineHeight cfg \<le> y" and "y < int i * lineHeight cfg + lineHeight cfg"
    and "0 \<le> x" and "x < width cfg" and "inBounds img x y"
  shows "Pix (fold (lineStep cfg) (enumerate 0 frames) img) (x, y) = RGB_RGBA (frames ! i)"
  using assms(2)
proof (induction frames rule: rev_induct)
  case Nil
  then show ?case by simp
next
  case (snoc f fs)
  let ?prev = "fold (lineStep cfg) (enumerate 0 fs) img"
  have e: "fold (lineStep cfg) (enumerate 0 (fs @ [f])) img = lineStep cfg (length fs, f) ?prev"
    by (simp add: enumerate_append_eq)
  have b: "inBounds ?prev x y = inBounds img x y" by (rule inBounds_cong) simp
  show ?case
  proof (cases "i = length fs")
    case True
    show ?thesis
      unfolding e lineStep_Pix b using True assms by simp
  next
    case False
    then have i: "i < length fs" using snoc.prems by simp
    then have "int i + 1 \<le> int (length fs)" by simp
    then have "(int i + 1) * lineHeight cfg \<le> int (length fs) * lineHeight cfg"
      using assms(1) by (rule mult_right_mono)
    then have "y < int (length fs) * lineHeight cfg"
      using assms(4) by (simp add: algebra_simps)
    then show ?thesis
      unfolding e lineStep_Pix using snoc.IH[OF i] i by (simp add: nth_append)
  qed
qed

text \<open>
  C8. For a width \<open>W > 0\<close> and a line height \<open>L > 0\<close>, the raster of \<^verbatim>\<open>genLineImage\<close> for
  \<open>K\<close> colours spans \<open>W\<close> columns and \<open>K * L\<close> rows from the origin, and every pixel in
  the rows \<open>i * L\<close> to \<open>i * L + L - 1\<close> is the opaque colour \<open>frames ! i\<close>.
\<close>

theorem genLineImage_bands:
  assumes "0 < width cfg" and "0 < lineHeight cfg"
  shows "Bounds (genLineImage cfg frames) =
           \<lparr>MinX = 0, MinY = 0, MaxX = width cfg,
            MaxY = int (length frames) * lineHeight cfg\<rparr> \<and>
         (\<forall>i<length frames. \<forall>x y.
            0 \<le> x \<and> x < width cfg \<and>
            int i * lineHeight cfg \<le> y \<and> y < int i * lineHeight cfg + lineHeight cfg \<longrightarrow>
            Pix (genLineImage cfg frames) (x, y) = RGB_RGBA (frames ! i))"
proof -
  let ?img = "NewRGBA (Rect 0 0 (width cfg) (int (length frames) * lineHeight cfg))"
  have h: "0 \<le> int (length frames) * lineHeight cfg" using assms(2) by simp
  have r: "Bounds ?img = \<lparr>MinX = 0, MinY = 0, MaxX = width cfg,
            MaxY = int (length frames) * lineHeight cfg\<rparr>"
    using assms(1) h by (simp add: NewRGBA_def Rect_def)
  have 1: "Bounds (genLineImage cfg frames) = \<lparr>MinX = 0, MinY = 0, MaxX = width cfg,
            MaxY = int (length frames) * lineHeight cfg\<rparr>"
    unfolding genLineImage_lineStep using r by simp
  have 2: "Pix (genLineImage cfg frames) (x, y) = RGB_RGBA (frames ! i)"
    if i: "i < length frames" and x: "0 \<le> x" "x < width cfg"
      and y: "int i * lineHeight cfg \<le> y" "y < int i * lineHeight cfg + lineHeight cfg"
    for i x y
  proof -
    have "int i + 1 \<le> int (length frames)" using i by simp
    then have "(int i + 1) * lineHeight cfg \<le> int (length frames) * lineHeight cfg"
      using assms(2) by (intro mult_right_mono) simp_all
    then have top: "y < int (length frames) * lineHeight cfg" using y(2) by (simp add: algebra_simps)
    have "0 \<le> int i * lineHeight cfg" using assms(2) by simp
    then have "0 \<le> y" using y(1) by simp
    then have inb: "inBounds ?img x y" using x top by (simp add: inBounds_def r)
    have l: "0 \<le> lineHeight cfg" using assms(2) by simp
    show ?thesis
      unfolding genLineImage_lineStep by (rule lines_Pix[OF l i y x inb])
  qed
  show ?thesis using 1 2 by blast
qed


theorem genLineImage_bands_witness:
  "0 < width cfgSmall \<and> 0 < lineHeight cfgSmall \<and>
   Bounds (genLineImage cfgSmall [RGB 255 0 0, RGB 0 0 255]) =
     \<lparr>MinX = 0, MinY = 0, MaxX = 3, MaxY = 4\<rparr> \<and>
   Pix (genLineImage cfgSmall [RGB 255 0 0, RGB 0 0 255]) (2, 3) = RGBA 0 0 255 255 \<and>
   Pix (genLineImage cfgSmall [RGB 255 0 0, RGB 0 0 255]) (0, 1) = RGBA 255 0 0 255"
proof -
  have w: "0 < width cfgSmall" and l: "0 < lineHeight cfgSmall" by (simp_all add: cfgSmall_def)
  note t = genLineImage_bands[OF w l, of "[RGB 255 0 0, RGB 0 0 255]"]
  have b: "Bounds (genLineImage cfgSmall [RGB 255 0 0, RGB 0 0 255]) =
     \<lparr>MinX = 0, MinY = 0, MaxX = 3, MaxY = 4\<rparr>"
    using t by (simp add: cfgSmall_def)
  have p: "\<And>i x y. i < 2 \<Longrightarrow> 0 \<le> x \<Longrightarrow> x < 3 \<Longrightarrow> int i * 2 \<le> y \<Longrightarrow> y < int i * 2 + 2 \<Longrightarrow>
     Pix (genLineImage cfgSmall [RGB 255 0 0, RGB 0 0 255]) (x, y) = RGB_RGBA ([RGB 255 0 0, RGB 0 0 255] ! i)"
    using t by (simp add: cfgSmall_def)
  have 1: "Pix (genLineImage cfgSmall [RGB 255 0 0, RGB 0 0 255]) (2, 3) = RGBA 0 0 255 255"
    using p[of 1 2 3] by (simp add: RGB_RGBA_def)
  have 2: "Pix (genLineImage cfgSmall [RGB 255 0 0, RGB 0 0 255]) (0, 1) = RGBA 255 0 0 255"
    using p[of 0 0 1] by (simp add: RGB_RGBA_def)
  show ?thesis using w l b 1 2 by simp
qed

subsection \<open>The column image\<close>

lemma colRows_panics:
  "colRows cfg y frames img = Inl IntegerDivideByZero \<longleftrightarrow> [] \<in> set frames"
  by (induction frames arbitrary: y img) (auto simp: Let_def)

lemma colRows_returns:
  "(\<exists>img'. colRows cfg y frames img = Inr img') \<longleftrightarrow> [] \<notin> set frames"
  by (induction frames arbitrary: y img) (auto simp: Let_def)

text \<open>
  C5, as the code has it. \<^verbatim>\<open>genLineColImage\<close> returns a raster exactly when no palette is
  empty; with an empty palette the division \<^verbatim>\<open>width / len(row)\<close> panics and there is no
  raster. The palettes that the program passes come from \<^verbatim>\<open>getMode\<close> with \<open>N > 0\<close> and
  are not empty.
\<close>

theorem genLineColImage_empty_palette:
  "(genLineColImage cfg frames = Inl IntegerDivideByZero \<longleftrightarrow> [] \<in> set frames) \<and>
   ((\<exists>img. genLineColImage cfg frames = Inr img) \<longleftrightarrow> [] \<notin> set frames) \<and>
   (runtime_ok E \<and> 0 < genMode cfg \<longrightarrow>
      arrays (snd (getMode E cfg s pixels)) (brk s) \<noteq> [])"
proof -
  have "arrays (snd (getMode E cfg s pixels)) (brk s) \<noteq> []"
    if ok: "runtime_ok E" and g: "0 < genMode cfg"
  proof -
    have srt: "sorts RGB_Less (sortRGB E)" using ok by (simp add: runtime_ok_def)
    have g0: "0 \<le> genMode cfg" using g by simp
    let ?counts = "sortCountsRev E (sortCounts E (rangeMap E (fold countPixel (arrays s pixels) [])))"
    let ?n = "nat (genMode cfg)"
    have "length (arrays (snd (getMode E cfg s pixels)) (brk s)) =
          length (map Color (take ?n ?counts) @ replicate (?n - length ?counts) (RGB 0 0 0))"
      by (simp add: getMode_eq[OF g0] Let_def sorts_length[OF srt])
    also have "\<dots> = ?n" by auto
    finally show ?thesis using g by auto
  qed
  then show ?thesis
    by (simp add: genLineColImage_def colRows_panics colRows_returns)
qed

text \<open>
  C5, as the claim states it, fails on two frames of which the second has an empty
  palette: the renderer panics with an integer division by zero.
\<close>

theorem genLineColImage_empty_palette_counterexample:
  "genLineColImage cfgSmall [[RGB 255 0 0, RGB 0 0 255], []] = Inl IntegerDivideByZero"
  by (simp add: genLineColImage_def cfgSmall_def)

theorem genLineColImage_empty_palette_witness:
  "[] \<notin> set [[RGB 255 0 0, RGB 0 0 255], [RGB 0 255 0]] \<and>
   (\<exists>img. genLineColImage cfgSmall [[RGB 255 0 0, RGB 0 0 255], [RGB 0 255 0]] = Inr img) \<and>
   [] \<in> set [[RGB 255 0 0], []] \<and>
   genLineColImage cfgSmall [[RGB 255 0 0], []] = Inl IntegerDivideByZero \<and>
   arrays (snd (getMode refRuntime cfgMode3 gridWhite 0)) (brk gridWhite) \<noteq> []"
proof -
  have g: "0 < genMode cfgMode3" by (simp add: cfgMode3_def)
  have 1: "[] \<notin> set [[RGB 255 0 0, RGB 0 0 255], [RGB 0 255 0]]" by simp
  have 2: "[] \<in> set [[RGB 255 0 0], []]" by simp
  show ?thesis
    using genLineColImage_empty_palette[of cfgSmall "[[RGB 255 0 0, RGB 0 0 255], [RGB 0 255 0]]"
            refRuntime gridWhite 0]
          genLineColImage_empty_palette[of cfgSmall "[[RGB 255 0 0], []]" refRuntime gridWhite 0]
          genLineColImage_empty_palette[of cfgMode3 "[]" refRuntime gridWhite 0]
          refRuntime_ok g 1 2
    by blast
qed

subsection \<open>Hue, saturation, lightness\<close>

text \<open>With exact arithmetic the hue is at least 0 and below 1; a grey has hue and saturation 0.\<close>

lemma hue_step:
  fixes u v d :: real
  assumes "0 < d" "\<bar>u - v\<bar> \<le> d"
  shows "(((m - v) / 6) + (d / 2)) / d - (((m - u) / 6) + (d / 2)) / d = (u - v) / (6 * d)"
    and "- (1 / 6) \<le> (u - v) / (6 * d)" and "(u - v) / (6 * d) \<le> 1 / 6"
proof -
  show "(((m - v) / 6) + (d / 2)) / d - (((m - u) / 6) + (d / 2)) / d = (u - v) / (6 * d)"
    using assms(1) by (simp add: field_simps)
  have "- d \<le> u - v" "u - v \<le> d" using assms(2) by linarith+
  then show "- (1 / 6) \<le> (u - v) / (6 * d)" "(u - v) / (6 * d) \<le> 1 / 6"
    using assms(1) by (simp_all add: field_simps)
qed

lemma ToHSL_hue_range: "\<exists>h. H (ToHSL c) = Num h \<and> 0 \<le> h \<and> h < 1"
proof -
  define r g b where "r = real (unat (R c))" and "g = real (unat (G c))" and "b = real (unat (B c))"
  define mx mn where "mx = max (max r g) b" and "mn = min (min r g) b"
  define d where "d = mx - mn"
  show ?thesis
  proof (cases "d = 0")
    case True
    then show ?thesis
      unfolding ToHSL_def Let_def d_def mx_def mn_def r_def g_def b_def by simp
  next
    case False
    have bounds: "mn \<le> r" "r \<le> mx" "mn \<le> g" "g \<le> mx" "mn \<le> b" "b \<le> mx"
      unfolding mx_def mn_def by simp_all
    then have d: "0 < d" using False unfolding d_def by linarith
    have gb: "\<bar>g - b\<bar> \<le> d" and br: "\<bar>b - r\<bar> \<le> d" and rg: "\<bar>r - g\<bar> \<le> d"
      using bounds unfolding d_def by linarith+
    define r2 g2 b2 where "r2 = (((mx - r) / 6) + (d / 2)) / d"
      and "g2 = (((mx - g) / 6) + (d / 2)) / d" and "b2 = (((mx - b) / 6) + (d / 2)) / d"
    define h where "h = (if r = mx then b2 - g2
                     else if g = mx then (1 / 3) + r2 - b2
                     else if b = mx then (2 / 3) + g2 - r2
                     else 0)"
    define h' where "h' = (if h < 0 then h + 1 else if h > 1 then h - 1 else h)"
    have H: "H (ToHSL c) = Num h'"
      using False
      unfolding ToHSL_def Let_def h'_def h_def r2_def g2_def b2_def d_def mx_def mn_def r_def g_def b_def
      by simp
    define q1 q2 q3 where "q1 = (g - b) / (6 * d)" and "q2 = (b - r) / (6 * d)"
      and "q3 = (r - g) / (6 * d)"
    have 1: "b2 - g2 = q1" "- (1 / 6) \<le> q1" "q1 \<le> 1 / 6"
      unfolding b2_def g2_def q1_def using hue_step(1)[OF d gb, of mx] hue_step(2,3)[OF d gb] by simp_all
    have 2: "r2 - b2 = q2" "- (1 / 6) \<le> q2" "q2 \<le> 1 / 6"
      unfolding r2_def b2_def q2_def using hue_step(1)[OF d br, of mx] hue_step(2,3)[OF d br] by simp_all
    have 3: "g2 - r2 = q3" "- (1 / 6) \<le> q3" "q3 \<le> 1 / 6"
      unfolding g2_def r2_def q3_def using hue_step(1)[OF d rg, of mx] hue_step(2,3)[OF d rg] by simp_all
    have e2: "(1 / 3) + r2 - b2 = 1 / 3 + q2" using 2(1) by linarith
    have e3: "(2 / 3) + g2 - r2 = 2 / 3 + q3" using 3(1) by linarith
    have hq: "h = (if r = mx then q1 else if g = mx then 1 / 3 + q2
                   else if b = mx then 2 / 3 + q3 else 0)"
      unfolding h_def 1(1) e2 e3 ..
    have "- (1 / 6) \<le> h \<and> h \<le> 5 / 6"
    proof -
      consider "r = mx" | "r \<noteq> mx" "g = mx" | "r \<noteq> mx" "g \<noteq> mx" "b = mx"
        | "r \<noteq> mx" "g \<noteq> mx" "b \<noteq> mx" by blast
      then show ?thesis
      proof cases
        case 1
        then have "h = q1" using hq by simp
        then show ?thesis using \<open>- (1 / 6) \<le> q1\<close> \<open>q1 \<le> 1 / 6\<close> by linarith
      next
        case 2
        then have "h = 1 / 3 + q2" using hq by simp
        then show ?thesis using \<open>- (1 / 6) \<le> q2\<close> \<open>q2 \<le> 1 / 6\<close> by linarith
      next
        case 3
        then have "h = 2 / 3 + q3" using hq by simp
        then show ?thesis using \<open>- (1 / 6) \<le> q3\<close> \<open>q3 \<le> 1 / 6\<close> by linarith
      next
        case 4
        then have "h = 0" using hq by simp
        then show ?thesis by simp
      qed
    qed
    then have "0 \<le> h' \<and> h' < 1" unfolding h'_def by auto
    then show ?thesis using H by blast
  qed
qed

lemma ToHSL_grey:
  assumes "R c = G c" and "G c = B c"
  shows "ToHSL c = \<lparr>H = Num 0, S = Num 0, L = Num (real (unat (R c)))\<rparr>"
  using assms by (simp add: ToHSL_def Let_def)

text \<open>
  C3. \<^verbatim>\<open>ToHSL\<close> compares the lightness with 0.5 and subtracts the channels from 2, as the
  conversion does for channels between 0 and 1, but it never divides the channels by
  255. For white the lightness is 255, not 1; for red the saturation is negative; for
  (2, 0, 0), which is not grey, the saturation is a division by zero.
\<close>

theorem ToHSL_not_normalised:
  "ToHSL (RGB 255 255 255) = \<lparr>H = Num 0, S = Num 0, L = Num 255\<rparr> \<and>
   ToHSL (RGB 255 0 0) = \<lparr>H = Num 0, S = Num (- (255 / 253)), L = Num (255 / 2)\<rparr> \<and>
   ToHSL (RGB 2 0 0) = \<lparr>H = Num 0, S = PosInf, L = Num 1\<rparr>"
  by (simp add: ToHSL_def Let_def fdiv_def)

end
